theory Spec2Isabelle
  imports Main "HOL-Library.Word"
begin

unbundle bit_operations_syntax

section \<open>The ledger query service (api.go)\<close>

text \<open>
  The file api.go holds two revisions of the service.  The development embeds the
  later one (the revision with the \<open>from_time\<close>/\<open>last_id\<close> cursor, whose response
  carries \<open>last\<close>); the clamp of the page size and the two length checks are the
  same text in both revisions.

  Integers.  Go's \<open>uint64\<close> is \<open>64 word\<close>: its order is the unsigned one and
  \<open>^uint64(0)\<close> is the all-ones word.  The \<open>int64\<close> timestamps and the \<open>int\<close>
  parameters are only compared and handed on, never computed with, so they are
  \<open>int\<close> and no wrap-around can occur.

  Strings are byte strings, as Go's are: \<open>length\<close> is Go's \<open>len\<close>.
\<close>

subsection \<open>Data model\<close>

type_synonym uint64 = "64 word"

text \<open>The fields \<open>Domain\<close> and \<open>Id\<close> carry a prime: both names are constants of HOL.\<close>

record queryResult =
  Domain' :: string
  ETLD :: string
  FirstSeen :: int
  LastSeen :: int
  Id' :: uint64

record queryResponse =
  Results :: "queryResult list"
  Last :: uint64

record statsResponse =
  DomainCount :: int
  ETLDCount :: int

subsection \<open>strings.TrimSpace and strings.ToLower\<close>

text \<open>
  The two library functions as they act on ASCII strings: the white space of
  \<open>TrimSpace\<close> is tab, line feed, vertical tab, form feed, carriage return and
  space, and \<open>ToLower\<close> maps \<open>A\<close>..\<open>Z\<close> to \<open>a\<close>..\<open>z\<close>.

  On a string with a byte from 0x80 on, Go's functions decode UTF-8: \<open>TrimSpace\<close>
  also trims the white space of Unicode (U+00A0, U+0085, U+3000 and others), and
  \<open>ToLower\<close> lower-cases the letters beyond \<open>A\<close>..\<open>Z\<close> and writes U+FFFD for a byte
  that is not UTF-8.  The definitions leave such bytes as they are and so are not
  Go's functions there.  Every statement below about the value of the pattern that
  is matched is therefore made for an ASCII filter (\<open>ascii\<close>); the statements about
  lengths, limits, pages and cursors hold whatever the pattern is.
\<close>

definition ascii :: "string \<Rightarrow> bool" where
  "ascii s \<longleftrightarrow> (\<forall>c \<in> set s. (of_char c :: nat) < 128)"

definition isSpace :: "char \<Rightarrow> bool" where
  "isSpace c \<longleftrightarrow> (of_char c :: nat) \<in> {9, 10, 11, 12, 13, 32}"

definition TrimSpace :: "string \<Rightarrow> string" where
  "TrimSpace s = rev (dropWhile isSpace (rev (dropWhile isSpace s)))"

definition toLower :: "char \<Rightarrow> char" where
  "toLower c =
     (if (65::nat) \<le> of_char c \<and> of_char c \<le> (90::nat)
      then char_of (of_char c + (32::nat)) else c)"

definition ToLower :: "string \<Rightarrow> string" where
  "ToLower s = map toLower s"

subsection \<open>The store: the table domains and the three SELECT statements\<close>

text \<open>
  \<open>like p t\<close> is SQL's \<open>t LIKE p\<close>: \<open>%\<close> stands for any run of characters, \<open>_\<close> for
  any one character, a backslash takes the next pattern character literally, and
  every other character stands for itself.  A pattern that ends in a lone backslash
  matches nothing here (PostgreSQL raises an error when its matcher reaches it; a
  failing statement is the store's \<open>fault\<close> below).
\<close>

fun like :: "string \<Rightarrow> string \<Rightarrow> bool" where
  "like [] t = (t = [])"
| "like (p # ps) t =
     (if p = CHR ''%'' then
        like ps t \<or> (case t of [] \<Rightarrow> False | _ # t' \<Rightarrow> like (p # ps) t')
      else if p = CHR ''_'' then
        (case t of [] \<Rightarrow> False | _ # t' \<Rightarrow> like ps t')
      else if p = CHR 0x5C then
        (case ps of [] \<Rightarrow> False
         | q # qs \<Rightarrow> (case t of [] \<Rightarrow> False | c # t' \<Rightarrow> c = q \<and> like qs t'))
      else
        (case t of [] \<Rightarrow> False | c # t' \<Rightarrow> c = p \<and> like ps t'))"

text \<open>
  The statements of \<open>query\<close>, each with the parameters bound to it:
  \<^item> \<open>SelectCursor p fromTime limit lastId\<close>:
    \<^verbatim>\<open>SELECT * FROM domains WHERE domain LIKE $1 AND first_seen <= $2 AND id < $4
      ORDER BY first_seen DESC, last_seen DESC, id DESC LIMIT $3;\<close>
  \<^item> \<open>SelectFromTime p fromTime limit\<close>:
    \<^verbatim>\<open>SELECT * FROM domains WHERE domain LIKE $1 AND first_seen <= $2
      ORDER BY first_seen DESC, last_seen DESC, id DESC LIMIT $3;\<close>
  \<^item> \<open>SelectNewest p limit\<close>:
    \<^verbatim>\<open>SELECT * FROM domains WHERE domain LIKE $1
      ORDER BY first_seen DESC, last_seen DESC, id DESC LIMIT $2;\<close>
\<close>

datatype select_stmt =
    SelectCursor string int int int
  | SelectFromTime string int int
  | SelectNewest string int

fun pattern_of :: "select_stmt \<Rightarrow> string" where
  "pattern_of (SelectCursor p fromTime limit lastId) = p"
| "pattern_of (SelectFromTime p fromTime limit) = p"
| "pattern_of (SelectNewest p limit) = p"

fun limit_of :: "select_stmt \<Rightarrow> int" where
  "limit_of (SelectCursor p fromTime limit lastId) = limit"
| "limit_of (SelectFromTime p fromTime limit) = limit"
| "limit_of (SelectNewest p limit) = limit"

fun where_clause :: "select_stmt \<Rightarrow> queryResult \<Rightarrow> bool" where
  "where_clause (SelectCursor p fromTime limit lastId) r \<longleftrightarrow>
     like p (Domain' r) \<and> FirstSeen r \<le> fromTime \<and> uint (Id' r) < lastId"
| "where_clause (SelectFromTime p fromTime limit) r \<longleftrightarrow>
     like p (Domain' r) \<and> FirstSeen r \<le> fromTime"
| "where_clause (SelectNewest p limit) r \<longleftrightarrow> like p (Domain' r)"

text \<open>
  \<open>ORDER BY first_seen DESC, last_seen DESC, id DESC\<close>: \<open>sorts_before a b\<close> says
  that row \<open>a\<close> comes strictly before row \<open>b\<close>; \<open>order_by\<close> sorts by insertion.
  In \<open>where_clause\<close>, \<open>id < $4\<close> compares the row's id with the Go \<open>int\<close> bound to
  \<open>$4\<close>, as numbers.
\<close>

definition sorts_before :: "queryResult \<Rightarrow> queryResult \<Rightarrow> bool" where
  "sorts_before a b \<longleftrightarrow>
     FirstSeen a > FirstSeen b
     \<or> (FirstSeen a = FirstSeen b \<and> LastSeen a > LastSeen b)
     \<or> (FirstSeen a = FirstSeen b \<and> LastSeen a = LastSeen b \<and> Id' a > Id' b)"

fun insert_row :: "queryResult \<Rightarrow> queryResult list \<Rightarrow> queryResult list" where
  "insert_row r [] = [r]"
| "insert_row r (x # xs) =
     (if sorts_before x r then x # insert_row r xs else r # x # xs)"

definition order_by :: "queryResult list \<Rightarrow> queryResult list" where
  "order_by rows = foldr insert_row rows []"

text \<open>
  The store at the moment of a read: the rows of \<open>domains\<close>, and \<open>fault\<close>, the
  error of a read that fails (a lost connection, the request's deadline, a
  statement the server rejects).  PostgreSQL rejects a negative \<open>LIMIT\<close>.
\<close>

record db =
  domains :: "queryResult list"
  fault :: "string option"

definition run_select :: "queryResult list \<Rightarrow> select_stmt \<Rightarrow> string + queryResult list" where
  "run_select tbl s =
     (if limit_of s < 0 then Inl ''pq: LIMIT must not be negative''
      else Inr (take (nat (limit_of s)) (order_by (filter (where_clause s) tbl))))"

definition SelectContext :: "db \<Rightarrow> select_stmt \<Rightarrow> string + queryResult list" where
  "SelectContext d s =
     (case fault d of Some e \<Rightarrow> Inl e | None \<Rightarrow> run_select (domains d) s)"

subsection \<open>query\<close>

text \<open>What a call does besides returning: the statements it sends and the lines it logs.\<close>

datatype event = StoreQuery select_stmt | LogPrintf string

fun issued :: "event list \<Rightarrow> select_stmt list" where
  "issued [] = []"
| "issued (StoreQuery s # es) = s # issued es"
| "issued (LogPrintf m # es) = issued es"

fun logged :: "event list \<Rightarrow> string list" where
  "logged [] = []"
| "logged (StoreQuery s # es) = logged es"
| "logged (LogPrintf m # es) = m # logged es"

text \<open>The loop over \<open>out\<close> that lowers \<open>lowestId\<close>, started at \<open>^uint64(0)\<close>.\<close>

fun lowest_from :: "uint64 \<Rightarrow> queryResult list \<Rightarrow> uint64" where
  "lowest_from acc [] = acc"
| "lowest_from acc (v # out) = lowest_from (if Id' v < acc then Id' v else acc) out"

definition lowestId :: "queryResult list \<Rightarrow> uint64" where
  "lowestId out = lowest_from (NOT 0) out"

text \<open>
  The clamp of the page size at the head of \<open>query\<close>, and the choice among the
  three statements by \<open>fromTime\<close> and \<open>lastId\<close>, in the order of the source's
  \<open>if\<close> chain.
\<close>

definition effective_limit :: "int \<Rightarrow> int" where
  "effective_limit limit = (if limit = 0 \<or> limit > 1000 then 1000 else limit)"

definition choose_stmt :: "string \<Rightarrow> int \<Rightarrow> int \<Rightarrow> int \<Rightarrow> select_stmt" where
  "choose_stmt qs fromTime lastId limit =
     (if fromTime > 0 \<and> lastId > 0 then SelectCursor qs fromTime limit lastId
      else if lastId = 0 \<and> fromTime > 0 then SelectFromTime qs fromTime limit
      else SelectNewest qs limit)"

text \<open>
  \<open>query d qs fromTime lastId limit0\<close> on the store \<open>d\<close>: the events of the call
  and what it returns, \<open>Inl\<close> the error.
\<close>

definition query ::
  "db \<Rightarrow> string \<Rightarrow> int \<Rightarrow> int \<Rightarrow> int \<Rightarrow> event list \<times> (string + queryResponse)" where
  "query d qs fromTime lastId limit0 =
     (let limit = effective_limit limit0 in
      if length qs > 255 then ([], Inl ''Query too long'')
      else if length qs < 3 then ([], Inl ''Query must be at least 3 characters'')
      else
        let stmt = choose_stmt (ToLower (TrimSpace qs)) fromTime lastId limit in
        case SelectContext d stmt of
          Inl err \<Rightarrow>
            ([StoreQuery stmt, LogPrintf (''Query error: '' @ err)], Inl ''Query failed :('')
        | Inr out \<Rightarrow>
            ([StoreQuery stmt], Inr \<lparr>Results = out, Last = lowestId out\<rparr>))"

subsection \<open>The handlers\<close>

datatype payload = PlainText string | QueryJson queryResponse | StatsJson statsResponse

record http_response =
  status :: nat
  body :: payload

text \<open>\<open>http.Error\<close> writes the status and the message, followed by a line feed.\<close>

definition http_Error :: "string \<Rightarrow> nat \<Rightarrow> http_response" where
  "http_Error msg code = \<lparr>status = code, body = PlainText (msg @ [CHR 0x0A])\<rparr>"

text \<open>
  \<open>queryHandler\<close> after it has read its parameters: \<open>q\<close> is the parameter \<open>query\<close>,
  and \<open>limit\<close>, \<open>off\<close> and \<open>last'\<close> are what \<open>strconv.Atoi\<close> made of \<open>limit\<close>,
  \<open>from_time\<close> and \<open>last_id\<close> (0 for a parameter that is absent or not a number).
\<close>

definition queryHandler ::
  "db \<Rightarrow> string \<Rightarrow> int \<Rightarrow> int \<Rightarrow> int \<Rightarrow> event list \<times> http_response" where
  "queryHandler d q limit off last' =
     (case query d q off last' limit of
        (ev, Inl err) \<Rightarrow> (ev, http_Error err 400)
      | (ev, Inr res) \<Rightarrow> (ev, \<lparr>status = 200, body = QueryJson res\<rparr>))"

text \<open>
  \<open>checkLimit\<close> around a handler \<open>next\<close>.  The token buckets are the library
  \<open>tsenart/tb\<close>, which is not part of the repository: \<open>halt\<close> is what
  \<open>throttler.Halt(ip, 1, 5)\<close> answers, asked only when throttling is enabled.
\<close>

definition checkLimit :: "bool \<Rightarrow> bool \<Rightarrow> http_response \<Rightarrow> http_response" where
  "checkLimit throttleDisabled halt next_response =
     (if throttleDisabled then next_response
      else if halt then http_Error ''Throttled'' 429
      else next_response)"

subsection \<open>The counters and their refresh\<close>

text \<open>The two package variables that \<open>pollEtldCount\<close> writes and \<open>statsHandler\<close> reads.\<close>

record counters =
  etldCount :: int
  domainCount :: int

text \<open>
  \<^verbatim>\<open>SELECT COUNT(*) FROM (SELECT DISTINCT etld FROM domains) AS temp;\<close> and
  \<^verbatim>\<open>SELECT COUNT(*) FROM domains\<close>, on the store as it is when the statement runs.
\<close>

definition count_etlds :: "db \<Rightarrow> string + int" where
  "count_etlds d =
     (case fault d of
        Some e \<Rightarrow> Inl e
      | None \<Rightarrow> Inr (int (length (remdups (map ETLD (domains d))))))"

definition count_domains :: "db \<Rightarrow> string + int" where
  "count_domains d =
     (case fault d of Some e \<Rightarrow> Inl e | None \<Rightarrow> Inr (int (length (domains d))))"

text \<open>
  \<open>db.Get(&dest, ...)\<close>: the value of \<open>dest\<close> afterwards and the error returned.
  A read that fails returns before anything is scanned into \<open>dest\<close>.
\<close>

definition Get :: "int \<Rightarrow> string + int \<Rightarrow> int \<times> string option" where
  "Get dest res = (case res of Inl e \<Rightarrow> (dest, Some e) | Inr v \<Rightarrow> (v, None))"

definition log_failure :: "string \<Rightarrow> string option \<Rightarrow> string list" where
  "log_failure what err = (case err of None \<Rightarrow> [] | Some e \<Rightarrow> [what @ e])"

text \<open>
  One pass of the body of the loop, up to the sleep: \<open>d1\<close> is the store at the
  first statement, \<open>d2\<close> the store at the second.  The result is the lines logged
  and the counters afterwards.
\<close>

definition poll_pass :: "db \<Rightarrow> db \<Rightarrow> counters \<Rightarrow> string list \<times> counters" where
  "poll_pass d1 d2 g =
     (let (e, err1) = Get (etldCount g) (count_etlds d1);
          (c, err2) = Get (domainCount g) (count_domains d2)
      in (log_failure ''Failed to get etld count: '' err1
            @ log_failure ''Failed to get domain count: '' err2,
          \<lparr>etldCount = e, domainCount = c\<rparr>))"

text \<open>
  The loop never ends by itself; \<open>pollEtldCount ticks g\<close> is the loop run for the
  passes of \<open>ticks\<close>, one pair of stores each.
\<close>

fun pollEtldCount :: "(db \<times> db) list \<Rightarrow> counters \<Rightarrow> string list \<times> counters" where
  "pollEtldCount [] g = ([], g)"
| "pollEtldCount ((d1, d2) # ticks) g =
     (let (lines1, g1) = poll_pass d1 d2 g;
          (lines2, g2) = pollEtldCount ticks g1
      in (lines1 @ lines2, g2))"

definition stats_of :: "counters \<Rightarrow> statsResponse" where
  "stats_of g = \<lparr>DomainCount = domainCount g, ETLDCount = etldCount g\<rparr>"

definition statsHandler :: "counters \<Rightarrow> http_response" where
  "statsHandler g = \<lparr>status = 200, body = StatsJson (stats_of g)\<rparr>"

subsection \<open>The refresh and the stats requests, interleaved\<close>

text \<open>
  \<open>pollEtldCount\<close> runs in a goroutine of its own beside the request handlers, and
  nothing synchronises the two variables.  The interleaving is modelled at the
  grain of the loop's statements: the poller is at its first \<open>db.Get\<close>, at its
  second, or at the sleep, and a stats request can be served between any two of
  its steps.  \<open>served\<close> collects what the requests were answered.
\<close>

datatype poller_at = AtGetEtld | AtGetDomain | AtSleep

record sys =
  vars :: counters
  at :: poller_at
  served :: "statsResponse list"

datatype action = Poll db | Serve

fun step :: "sys \<Rightarrow> action \<Rightarrow> sys" where
  "step s (Poll d) =
     (case at s of
        AtGetEtld \<Rightarrow>
          s\<lparr>vars := (vars s)\<lparr>etldCount := fst (Get (etldCount (vars s)) (count_etlds d))\<rparr>,
            at := AtGetDomain\<rparr>
      | AtGetDomain \<Rightarrow>
          s\<lparr>vars := (vars s)\<lparr>domainCount := fst (Get (domainCount (vars s)) (count_domains d))\<rparr>,
            at := AtSleep\<rparr>
      | AtSleep \<Rightarrow> s\<lparr>at := AtGetEtld\<rparr>)"
| "step s Serve = s\<lparr>served := served s @ [stats_of (vars s)]\<rparr>"

definition run :: "action list \<Rightarrow> sys \<Rightarrow> sys" where
  "run acts s = foldl step s acts"

definition start :: sys where
  "start = \<lparr>vars = \<lparr>etldCount = 0, domainCount = 0\<rparr>, at = AtGetEtld, served = []\<rparr>"

subsection \<open>Notions the properties are stated with\<close>

text \<open>The two errors of \<open>query\<close> that reject the filter for its length.\<close>

definition InvalidQuery :: "string + queryResponse \<Rightarrow> bool" where
  "InvalidQuery res \<longleftrightarrow>
     res = Inl ''Query too long'' \<or> res = Inl ''Query must be at least 3 characters''"

text \<open>
  The history of a schedule, read off the schedule alone.  The poller goes round
  its three statements, so with the poller at \<open>p\<close>, \<open>etld_reads p acts\<close> are the
  results of the eTLD statement in \<open>acts\<close>, in order, and \<open>domain_reads p acts\<close> those
  of the domain statement.  \<open>latest v rs\<close> is the last result of \<open>rs\<close> that is not an
  error, and \<open>v\<close> when there is none.  \<open>requests acts\<close> counts the stats requests.
\<close>

fun next_at :: "poller_at \<Rightarrow> poller_at" where
  "next_at AtGetEtld = AtGetDomain"
| "next_at AtGetDomain = AtSleep"
| "next_at AtSleep = AtGetEtld"

fun etld_reads :: "poller_at \<Rightarrow> action list \<Rightarrow> (string + int) list" where
  "etld_reads p [] = []"
| "etld_reads p (Serve # acts) = etld_reads p acts"
| "etld_reads p (Poll d # acts) =
     (if p = AtGetEtld then count_etlds d # etld_reads (next_at p) acts
      else etld_reads (next_at p) acts)"

fun domain_reads :: "poller_at \<Rightarrow> action list \<Rightarrow> (string + int) list" where
  "domain_reads p [] = []"
| "domain_reads p (Serve # acts) = domain_reads p acts"
| "domain_reads p (Poll d # acts) =
     (if p = AtGetDomain then count_domains d # domain_reads (next_at p) acts
      else domain_reads (next_at p) acts)"

fun latest :: "int \<Rightarrow> (string + int) list \<Rightarrow> int" where
  "latest v [] = v"
| "latest v (Inl e # rs) = latest v rs"
| "latest v (Inr w # rs) = latest w rs"

fun requests :: "action list \<Rightarrow> nat" where
  "requests [] = 0"
| "requests (Serve # acts) = Suc (requests acts)"
| "requests (Poll d # acts) = requests acts"

subsection \<open>Example stores\<close>

definition ex_a_com :: queryResult where
  "ex_a_com =
     \<lparr>Domain' = ''a.com.au'', ETLD = ''com.au'', FirstSeen = 100, LastSeen = 100, Id' = 1\<rparr>"

definition ex_b_com :: queryResult where
  "ex_b_com =
     \<lparr>Domain' = ''b.com.au'', ETLD = ''com.au'', FirstSeen = 200, LastSeen = 200, Id' = 2\<rparr>"

definition ex_a_net :: queryResult where
  "ex_a_net =
     \<lparr>Domain' = ''a.net.au'', ETLD = ''net.au'', FirstSeen = 200, LastSeen = 200, Id' = 3\<rparr>"

definition ex_epoch :: queryResult where
  "ex_epoch =
     \<lparr>Domain' = ''old.com.au'', ETLD = ''com.au'', FirstSeen = 0, LastSeen = 50, Id' = 7\<rparr>"

definition ex_zero_id :: queryResult where
  "ex_zero_id =
     \<lparr>Domain' = ''nil.com.au'', ETLD = ''com.au'', FirstSeen = 100, LastSeen = 100, Id' = 0\<rparr>"

definition ex_store :: db where
  "ex_store = \<lparr>domains = [ex_a_com, ex_b_com, ex_a_net], fault = None\<rparr>"

definition ex_down :: db where
  "ex_down =
     \<lparr>domains = [ex_a_com, ex_b_com, ex_a_net], fault = Some ''pq: connection refused''\<rparr>"

definition ex_first :: db where
  "ex_first = \<lparr>domains = [ex_a_com], fault = None\<rparr>"

definition ex_old :: db where
  "ex_old = \<lparr>domains = [ex_epoch], fault = None\<rparr>"

definition ex_nil :: db where
  "ex_nil = \<lparr>domains = [ex_zero_id], fault = None\<rparr>"

section \<open>Facts about the model\<close>

lemmas ex_defs = ex_a_com_def ex_b_com_def ex_a_net_def ex_epoch_def ex_zero_id_def
  ex_store_def ex_down_def ex_first_def ex_old_def ex_nil_def

lemmas norm_defs = TrimSpace_def ToLower_def toLower_def isSpace_def

lemmas query_defs = query_def effective_limit_def choose_stmt_def SelectContext_def
  run_select_def order_by_def sorts_before_def lowestId_def

lemma below_all_ones: "(0::uint64) < - 1" "(1::uint64) < - 1"
  by (simp_all add: word_less_def unsigned_minus_1_eq_mask mask_eq_exp_minus_1)

subsection \<open>ORDER BY\<close>

lemma set_insert_row: "set (insert_row r xs) = insert r (set xs)"
  by (induction xs) auto

lemma set_order_by: "set (order_by rows) = set rows"
  by (induction rows) (auto simp: order_by_def set_insert_row)

lemma not_before_trans:
  "\<not> sorts_before b a \<Longrightarrow> \<not> sorts_before c b \<Longrightarrow> \<not> sorts_before c a"
  by (auto simp: sorts_before_def)

lemma sorts_before_asym: "sorts_before a b \<Longrightarrow> \<not> sorts_before b a"
  by (auto simp: sorts_before_def)

lemma sorts_before_irrefl: "\<not> sorts_before a a"
  by (simp add: sorts_before_def)

lemma sorts_before_total: "Id' a \<noteq> Id' b \<Longrightarrow> \<not> sorts_before b a \<Longrightarrow> sorts_before a b"
  by (auto simp: sorts_before_def)

lemma sorted_insert_row:
  "sorted_wrt (\<lambda>a b. \<not> sorts_before b a) xs \<Longrightarrow>
   sorted_wrt (\<lambda>a b. \<not> sorts_before b a) (insert_row r xs)"
proof (induction xs)
  case Nil
  then show ?case by simp
next
  case (Cons x xs)
  show ?case
  proof (cases "sorts_before x r")
    case True
    with Cons show ?thesis
      by (auto simp: set_insert_row dest: sorts_before_asym)
  next
    case False
    with Cons.prems show ?thesis
      using not_before_trans [of x r] by auto
  qed
qed

lemma sorted_order_by: "sorted_wrt (\<lambda>a b. \<not> sorts_before b a) (order_by rows)"
  by (induction rows) (simp_all add: order_by_def sorted_insert_row)

lemma distinct_insert_row:
  "distinct (map Id' (insert_row r xs)) \<longleftrightarrow> Id' r \<notin> Id' ` set xs \<and> distinct (map Id' xs)"
  by (induction xs) (auto simp: set_insert_row)

lemma distinct_order_by: "distinct (map Id' (order_by rows)) \<longleftrightarrow> distinct (map Id' rows)"
  by (induction rows)
    (auto simp: order_by_def distinct_insert_row set_order_by [unfolded order_by_def])

text \<open>With ids that are all different, no two rows tie, and the order is strict.\<close>

lemma strict_of_distinct:
  "sorted_wrt (\<lambda>a b. \<not> sorts_before b a) xs \<Longrightarrow> distinct (map Id' xs) \<Longrightarrow>
   sorted_wrt sorts_before xs"
  by (induction xs) (auto intro: sorts_before_total)

text \<open>Two strictly ordered lists of the same rows are the same list.\<close>

lemma strict_sorted_unique:
  "sorted_wrt sorts_before xs \<Longrightarrow> sorted_wrt sorts_before ys \<Longrightarrow> set xs = set ys \<Longrightarrow> xs = ys"
proof (induction xs arbitrary: ys)
  case Nil
  then show ?case by simp
next
  case (Cons x xs)
  then obtain y ys' where ys: "ys = y # ys'" by (cases ys) auto
  have xy: "x = y"
  proof (rule ccontr)
    assume ne: "x \<noteq> y"
    with Cons.prems ys have "x \<in> set ys'" "y \<in> set xs" by auto
    with Cons.prems ys have "sorts_before y x" "sorts_before x y" by auto
    then show False by (blast dest: sorts_before_asym)
  qed
  have nx: "x \<notin> set xs" using Cons.prems(1) by (auto simp: sorts_before_irrefl)
  have ny: "y \<notin> set ys'" using Cons.prems(2) ys by (auto simp: sorts_before_irrefl)
  have "set xs = set ys'" using Cons.prems(3) ys xy nx ny by auto
  with Cons ys xy show ?case by auto
qed

lemma run_select_sorted:
  "distinct (map Id' tbl) \<Longrightarrow> run_select tbl s = Inr out \<Longrightarrow> sorted_wrt sorts_before out"
  by (auto simp: run_select_def distinct_order_by distinct_map_filter split: if_splits
      intro!: sorted_wrt_take strict_of_distinct sorted_order_by)

lemma SelectContext_sorted:
  "distinct (map Id' (domains d)) \<Longrightarrow> SelectContext d s = Inr out \<Longrightarrow>
   sorted_wrt sorts_before out"
  by (auto simp: SelectContext_def split: option.splits dest: run_select_sorted)

lemma SelectCursor_below:
  "SelectContext d (SelectCursor p fromTime limit lastId) = Inr out \<Longrightarrow> r \<in> set out \<Longrightarrow>
   uint (Id' r) < lastId"
  by (auto simp: SelectContext_def run_select_def set_order_by split: option.splits if_splits
      dest!: in_set_takeD)

subsection \<open>The lowest id\<close>

lemma lowest_from_le_acc: "lowest_from acc out \<le> acc"
proof (induction out arbitrary: acc)
  case Nil
  then show ?case by simp
next
  case (Cons v out)
  have "lowest_from (if Id' v < acc then Id' v else acc) out
      \<le> (if Id' v < acc then Id' v else acc)"
    by (rule Cons.IH)
  also have "\<dots> \<le> acc" by (simp add: less_imp_le)
  finally show ?case by simp
qed

lemma lowest_from_le: "v \<in> set out \<Longrightarrow> lowest_from acc out \<le> Id' v"
proof (induction out arbitrary: acc)
  case Nil
  then show ?case by simp
next
  case (Cons x out)
  show ?case
  proof (cases "v = x")
    case True
    have "lowest_from (if Id' x < acc then Id' x else acc) out
        \<le> (if Id' x < acc then Id' x else acc)"
      by (rule lowest_from_le_acc)
    also have "\<dots> \<le> Id' x" by auto
    finally show ?thesis using True by simp
  next
    case False
    with Cons show ?thesis by auto
  qed
qed

lemma lowest_from_mem: "lowest_from acc out = acc \<or> lowest_from acc out \<in> Id' ` set out"
proof (induction out arbitrary: acc)
  case Nil
  then show ?case by simp
next
  case (Cons v out)
  from Cons.IH [of "if Id' v < acc then Id' v else acc"] show ?case
    by (auto split: if_splits)
qed

lemma lowestId_least: "v \<in> set out \<Longrightarrow> lowestId out \<le> Id' v"
  by (simp add: lowestId_def lowest_from_le)

lemma lowestId_mem:
  assumes "out \<noteq> []"
  shows "lowestId out \<in> Id' ` set out"
proof -
  from assms obtain v where v: "v \<in> set out" by (cases out) auto
  show ?thesis
  proof (cases "lowestId out = NOT 0")
    case True
    have "NOT 0 \<le> Id' v" using lowestId_least [OF v] True by simp
    then have "Id' v = NOT 0" by (simp add: word_order.extremum_unique)
    with True v show ?thesis by force
  next
    case False
    with lowest_from_mem [of "NOT 0" out] show ?thesis by (simp add: lowestId_def)
  qed
qed

lemma lowestId_Min: "out \<noteq> [] \<Longrightarrow> lowestId out = Min (Id' ` set out)"
  by (rule sym, rule Min_eqI) (auto simp: lowestId_mem dest: lowestId_least)

subsection \<open>The paths of query\<close>

lemma query_invalid_iff:
  "InvalidQuery (snd (query d qs f l n)) \<longleftrightarrow> length qs < 3 \<or> 255 < length qs"
  by (auto simp: query_def InvalidQuery_def Let_def split: sum.splits)

lemma query_valid:
  "3 \<le> length qs \<Longrightarrow> length qs \<le> 255 \<Longrightarrow>
   query d qs f l n =
     (let stmt = choose_stmt (ToLower (TrimSpace qs)) f l (effective_limit n) in
      case SelectContext d stmt of
        Inl err \<Rightarrow>
          ([StoreQuery stmt, LogPrintf (''Query error: '' @ err)], Inl ''Query failed :('')
      | Inr out \<Rightarrow> ([StoreQuery stmt], Inr \<lparr>Results = out, Last = lowestId out\<rparr>))"
  by (simp add: query_def Let_def)

lemma issued_query_valid:
  "3 \<le> length qs \<Longrightarrow> length qs \<le> 255 \<Longrightarrow>
   issued (fst (query d qs f l n)) =
     [choose_stmt (ToLower (TrimSpace qs)) f l (effective_limit n)]"
  by (simp add: query_valid Let_def split: sum.splits)

lemma issued_query_invalid:
  "length qs < 3 \<or> 255 < length qs \<Longrightarrow> fst (query d qs f l n) = []"
  by (auto simp: query_def Let_def)

lemma query_Inr:
  "snd (query d qs f l n) = Inr resp \<Longrightarrow>
   3 \<le> length qs \<and> length qs \<le> 255 \<and>
   SelectContext d (choose_stmt (ToLower (TrimSpace qs)) f l (effective_limit n))
     = Inr (Results resp) \<and>
   Last resp = lowestId (Results resp)"
  by (auto simp: query_def Let_def split: if_splits sum.splits)

lemma limit_of_choose_stmt: "limit_of (choose_stmt p f l n) = n"
  by (simp add: choose_stmt_def)

lemma pattern_of_choose_stmt: "pattern_of (choose_stmt p f l n) = p"
  by (simp add: choose_stmt_def)

subsection \<open>The poller\<close>

lemma pollEtldCount_snoc:
  "snd (pollEtldCount (ticks @ [(d1, d2)]) g) =
   snd (poll_pass d1 d2 (snd (pollEtldCount ticks g)))"
  by (induction ticks arbitrary: g) (auto simp: Let_def case_prod_beta)

text \<open>Three steps of the interleaved poller are one pass of the loop.\<close>

lemma run_pass:
  "at s = AtGetEtld \<Longrightarrow>
   vars (run [Poll d1, Poll d2, Poll d3] s) = snd (poll_pass d1 d2 (vars s)) \<and>
   at (run [Poll d1, Poll d2, Poll d3] s) = AtGetEtld"
  by (simp add: run_def poll_pass_def split: prod.splits)

lemma run_Cons: "run (a # acts) s = run acts (step s a)"
  by (simp add: run_def)

lemma run_append: "run (xs @ ys) s = run ys (run xs s)"
  by (simp add: run_def)

lemma at_step_Poll: "at (step s (Poll d)) = next_at (at s)"
  by (cases "at s") simp_all

lemma etldCount_step_Poll:
  "etldCount (vars (step s (Poll d))) =
     (if at s = AtGetEtld then latest (etldCount (vars s)) [count_etlds d]
      else etldCount (vars s))"
  by (cases "at s"; cases "count_etlds d") (simp_all add: Get_def)

lemma domainCount_step_Poll:
  "domainCount (vars (step s (Poll d))) =
     (if at s = AtGetDomain then latest (domainCount (vars s)) [count_domains d]
      else domainCount (vars s))"
  by (cases "at s"; cases "count_domains d") (simp_all add: Get_def)

lemma latest_Cons: "latest (latest v [r]) rs = latest v (r # rs)"
  by (cases r) simp_all

lemma etldCount_run:
  "etldCount (vars (run acts s)) = latest (etldCount (vars s)) (etld_reads (at s) acts)"
proof (induction acts arbitrary: s)
  case Nil
  show ?case by (simp add: run_def)
next
  case (Cons a acts)
  show ?case
  proof (cases a)
    case (Poll d)
    show ?thesis
      unfolding Poll run_Cons Cons.IH at_step_Poll etldCount_step_Poll
      by (simp add: latest_Cons)
  next
    case Serve
    show ?thesis unfolding Serve run_Cons Cons.IH by simp
  qed
qed

lemma domainCount_run:
  "domainCount (vars (run acts s)) = latest (domainCount (vars s)) (domain_reads (at s) acts)"
proof (induction acts arbitrary: s)
  case Nil
  show ?case by (simp add: run_def)
next
  case (Cons a acts)
  show ?case
  proof (cases a)
    case (Poll d)
    show ?thesis
      unfolding Poll run_Cons Cons.IH at_step_Poll domainCount_step_Poll
      by (simp add: latest_Cons)
  next
    case Serve
    show ?thesis unfolding Serve run_Cons Cons.IH by simp
  qed
qed

lemma served_step_Poll: "served (step s (Poll d)) = served s"
  by (cases "at s") simp_all

lemma served_run_prefix: "take (length (served s)) (served (run acts s)) = served s \<and>
   length (served (run acts s)) = length (served s) + requests acts"
proof (induction acts arbitrary: s)
  case Nil
  show ?case by (simp add: run_def)
next
  case (Cons a acts)
  show ?case
  proof (cases a)
    case (Poll d)
    show ?thesis unfolding Poll run_Cons using Cons.IH [of "step s (Poll d)"]
      by (simp add: served_step_Poll del: step.simps)
  next
    case Serve
    from Cons.IH [of "step s Serve"]
    have t: "take (Suc (length (served s))) (served (run acts (step s Serve))) =
        served s @ [stats_of (vars s)]"
      and l: "length (served (run acts (step s Serve))) = Suc (length (served s)) + requests acts"
      by simp_all
    have "take (length (served s)) (served (run acts (step s Serve))) =
        take (length (served s)) (take (Suc (length (served s))) (served (run acts (step s Serve))))"
      by (simp add: min_def)
    also have "\<dots> = served s" unfolding t by simp
    finally show ?thesis unfolding Serve run_Cons using l by simp
  qed
qed

lemma served_at_request:
  "served (run (pre @ Serve # post) s) ! length (served (run pre s)) = stats_of (vars (run pre s))"
proof -
  let ?s = "step (run pre s) Serve"
  have eq: "run (pre @ Serve # post) s = run post ?s"
    by (simp add: run_append run_Cons)
  have len: "length (served ?s) = Suc (length (served (run pre s)))" by simp
  from served_run_prefix [of ?s post]
  have "take (length (served ?s)) (served (run post ?s)) = served ?s" by simp
  then have "take (length (served ?s)) (served (run post ?s)) ! length (served (run pre s))
      = served ?s ! length (served (run pre s))" by simp
  then have "served (run post ?s) ! length (served (run pre s)) = served ?s ! length (served (run pre s))"
    unfolding len by simp
  then show ?thesis unfolding eq by (simp add: nth_append)
qed

text \<open>
  \<open>checkLimit\<close> answers 429 with the body \<open>Throttled\<close> exactly when throttling is
  enabled and the throttler halts the request; otherwise the request goes on to
  the handler.
\<close>

lemma checkLimit_cases:
  "checkLimit throttleDisabled halt next_response =
     (if \<not> throttleDisabled \<and> halt
      then \<lparr>status = 429, body = PlainText (''Throttled'' @ [CHR 0x0A])\<rparr>
      else next_response)"
  by (simp add: checkLimit_def http_Error_def)


section \<open>The claims\<close>

subsection \<open>C1: the cursor\<close>

text \<open>
  Claim C1, as amended.  For every successful query whose page is not empty,
  \<open>last\<close> is the minimum id of the page's records; and if the record \<open>m\<close> with
  that id has a positive \<open>firstSeen\<close> and \<open>last\<close> itself is positive, every
  successful follow-up query with \<open>fromTime = firstSeen m\<close> and \<open>lastId = last\<close>
  (on any store, with any filter and page size) returns only records whose id is
  below \<open>last\<close>.
\<close>

theorem cursor_continuity:
  "snd (query d qs fromTime lastId limit) = Inr resp \<Longrightarrow> Results resp \<noteq> [] \<Longrightarrow>
   Last resp = Min (Id' ` set (Results resp)) \<and>
   (\<forall>m \<in> set (Results resp).
      Id' m = Last resp \<and> 0 < FirstSeen m \<and> 0 < uint (Last resp) \<longrightarrow>
      (\<forall>d' qs' limit' resp'.
         snd (query d' qs' (FirstSeen m) (uint (Last resp)) limit') = Inr resp' \<longrightarrow>
         (\<forall>r \<in> set (Results resp'). Id' r < Last resp)))"
proof (intro conjI ballI impI allI)
  assume ok: "snd (query d qs fromTime lastId limit) = Inr resp"
    and ne: "Results resp \<noteq> []"
  from query_Inr [OF ok] have "Last resp = lowestId (Results resp)" by simp
  with ne show "Last resp = Min (Id' ` set (Results resp))" by (simp add: lowestId_Min)
next
  fix m d' qs' limit' resp' r
  assume pos: "Id' m = Last resp \<and> 0 < FirstSeen m \<and> 0 < uint (Last resp)"
    and ok': "snd (query d' qs' (FirstSeen m) (uint (Last resp)) limit') = Inr resp'"
    and r: "r \<in> set (Results resp')"
  from query_Inr [OF ok'] pos
  have "SelectContext d'
          (SelectCursor (ToLower (TrimSpace qs')) (FirstSeen m) (effective_limit limit')
             (uint (Last resp)))
        = Inr (Results resp')"
    by (simp add: choose_stmt_def)
  from SelectCursor_below [OF this r] show "Id' r < Last resp"
    by (simp add: word_less_def)
qed

text \<open>
  The theorem at the example store, two rows to a page: the first page ends with
  \<open>b.com.au\<close> (id 2, first seen at 200), and the follow-up with \<open>fromTime = 200\<close>
  and \<open>lastId = 2\<close> returns \<open>a.com.au\<close>, id 1.
\<close>

theorem cursor_continuity_witness:
  "snd (query ex_store ''%.au'' 0 0 2) = Inr \<lparr>Results = [ex_a_net, ex_b_com], Last = 2\<rparr> \<and>
   Min (Id' ` set [ex_a_net, ex_b_com]) = 2 \<and>
   Id' ex_b_com = 2 \<and> FirstSeen ex_b_com = 200 \<and>
   snd (query ex_store ''%.au'' 200 2 2) = Inr \<lparr>Results = [ex_a_com], Last = 1\<rparr> \<and>
   Id' ex_a_com < 2"
proof -
  let ?resp = "\<lparr>Results = [ex_a_net, ex_b_com], Last = 2\<rparr>"
  have q1: "snd (query ex_store ''%.au'' 0 0 2) = Inr ?resp"
    by (simp add: query_defs ex_defs norm_defs)
  have q2: "snd (query ex_store ''%.au'' 200 2 2) = Inr \<lparr>Results = [ex_a_com], Last = 1\<rparr>"
    by (simp add: query_defs ex_defs norm_defs below_all_ones)
  have ne: "Results ?resp \<noteq> []" by simp
  note c = cursor_continuity [OF q1 ne]
  from c have mn: "Min (Id' ` set [ex_a_net, ex_b_com]) = 2" by simp
  from c have "\<forall>r \<in> set (Results \<lparr>Results = [ex_a_com], Last = 1\<rparr>). Id' r < Last ?resp"
    using q2 by (auto simp: ex_defs dest!: bspec [where x = ex_b_com])
  then have "Id' ex_a_com < 2" by simp
  with q1 q2 mn show ?thesis by (simp add: ex_defs)
qed

text \<open>
  Claim C1 as stated fails in three ways.  A query that matches nothing succeeds
  with an empty page and \<open>last = 2^64 - 1\<close>, the id of no record.  A page whose
  lowest record was first seen at 0 gives \<open>fromTime = 0\<close>, which \<open>query\<close> reads as no
  cursor: the follow-up returns that record again, with \<open>id = last\<close>.  A page whose
  lowest id is 0 gives \<open>lastId = 0\<close>, which \<open>query\<close> reads as no id bound: the
  follow-up returns the record at the boundary again.
\<close>

theorem cursor_counterexample:
  "snd (query ex_store ''zzz'' 0 0 10) = Inr \<lparr>Results = [], Last = NOT 0\<rparr> \<and>
   snd (query ex_old ''old%'' 0 0 10) = Inr \<lparr>Results = [ex_epoch], Last = 7\<rparr> \<and>
   FirstSeen ex_epoch = 0 \<and>
   snd (query ex_old ''old%'' 0 7 10) = Inr \<lparr>Results = [ex_epoch], Last = 7\<rparr> \<and>
   snd (query ex_nil ''nil%'' 0 0 10) = Inr \<lparr>Results = [ex_zero_id], Last = 0\<rparr> \<and>
   FirstSeen ex_zero_id = 100 \<and>
   snd (query ex_nil ''nil%'' 100 0 10) = Inr \<lparr>Results = [ex_zero_id], Last = 0\<rparr>"
  by (simp add: query_defs ex_defs norm_defs below_all_ones)

subsection \<open>C2: the order of a page\<close>

text \<open>
  Claim C2.  In every page that \<open>query\<close> returns, a record \<open>A\<close> that stands before a
  record \<open>B\<close> has the later \<open>firstSeen\<close>, or the same \<open>firstSeen\<close> and the later
  \<open>lastSeen\<close>, or both the same and the greater id.  The ids of the table are
  unique, as the data model has them.
\<close>

theorem page_order:
  "distinct (map Id' (domains d)) \<Longrightarrow> snd (query d qs fromTime lastId limit) = Inr resp \<Longrightarrow>
   \<forall>i j. i < j \<and> j < length (Results resp) \<longrightarrow>
     (let A = Results resp ! i; B = Results resp ! j in
      FirstSeen A > FirstSeen B
      \<or> (FirstSeen A = FirstSeen B \<and> LastSeen A > LastSeen B)
      \<or> (FirstSeen A = FirstSeen B \<and> LastSeen A = LastSeen B \<and> Id' A > Id' B))"
proof -
  assume dist: "distinct (map Id' (domains d))"
    and ok: "snd (query d qs fromTime lastId limit) = Inr resp"
  from query_Inr [OF ok] obtain s where "SelectContext d s = Inr (Results resp)" by blast
  with dist have "sorted_wrt sorts_before (Results resp)" by (rule SelectContext_sorted)
  then have "\<forall>i j. i < j \<and> j < length (Results resp) \<longrightarrow>
      sorts_before (Results resp ! i) (Results resp ! j)"
    by (simp add: sorted_wrt_iff_nth_less)
  then show ?thesis by (simp add: sorts_before_def Let_def)
qed

theorem page_order_witness:
  "distinct (map Id' (domains ex_store)) \<and>
   snd (query ex_store ''%.au'' 0 0 10) =
     Inr \<lparr>Results = [ex_a_net, ex_b_com, ex_a_com], Last = 1\<rparr> \<and>
   FirstSeen ex_a_net = FirstSeen ex_b_com \<and> LastSeen ex_a_net = LastSeen ex_b_com \<and>
   Id' ex_a_net > Id' ex_b_com \<and> FirstSeen ex_b_com > FirstSeen ex_a_com"
proof -
  let ?resp = "\<lparr>Results = [ex_a_net, ex_b_com, ex_a_com], Last = 1\<rparr>"
  have dist: "distinct (map Id' (domains ex_store))" by (simp add: ex_defs)
  have q: "snd (query ex_store ''%.au'' 0 0 10) = Inr ?resp"
    by (simp add: query_defs ex_defs norm_defs)
  note p = page_order [OF dist q, rule_format]
  from p [of 0 1] have a: "Id' ex_a_net > Id' ex_b_com" by (simp add: ex_defs Let_def)
  from p [of 1 2] have b: "FirstSeen ex_b_com > FirstSeen ex_a_com"
    by (simp add: ex_defs Let_def)
  from dist q a b show ?thesis by (simp add: ex_defs)
qed

subsection \<open>C3: the length of the filter\<close>

text \<open>
  Claim C3, as amended.  Both length checks read the filter as it was sent:
  \<open>query\<close> fails with an \<open>InvalidQuery\<close> error exactly when the raw length is below 3
  or above 255, and then it sends nothing to the store; a filter of raw length 3 to
  255 passes and one statement is sent; and for an ASCII filter the pattern sent
  is the filter without its leading and trailing white space and with \<open>A\<close>..\<open>Z\<close>
  in lower case.
\<close>

theorem filter_validation:
  "(InvalidQuery (snd (query d qs f l n)) \<longleftrightarrow> length qs < 3 \<or> 255 < length qs) \<and>
   (InvalidQuery (snd (query d qs f l n)) \<longrightarrow> fst (query d qs f l n) = []) \<and>
   (3 \<le> length qs \<and> length qs \<le> 255 \<longrightarrow> length (issued (fst (query d qs f l n))) = 1) \<and>
   (3 \<le> length qs \<and> length qs \<le> 255 \<and> ascii qs \<longrightarrow>
      map pattern_of (issued (fst (query d qs f l n))) = [ToLower (TrimSpace qs)])"
  by (simp add: query_invalid_iff issued_query_invalid issued_query_valid
      pattern_of_choose_stmt)

theorem filter_validation_witness:
  "InvalidQuery (snd (query ex_store ''au'' 0 0 10)) \<and>
   fst (query ex_store ''au'' 0 0 10) = [] \<and>
   ascii '' A.% '' \<and>
   length (issued (fst (query ex_store '' A.% '' 0 0 10))) = 1 \<and>
   map pattern_of (issued (fst (query ex_store '' A.% '' 0 0 10))) = [''a.%'']"
proof -
  note v = filter_validation [of ex_store _ 0 0 10]
  have n: "ToLower (TrimSpace '' A.% '') = ''a.%''" by code_simp
  have asc: "ascii '' A.% ''" by (simp add: ascii_def)
  from v [of "''au''"] have a: "InvalidQuery (snd (query ex_store ''au'' 0 0 10))" by simp
  with v [of "''au''"] have b: "fst (query ex_store ''au'' 0 0 10) = []" by blast
  from v [of "'' A.% ''"]
  have c0: "length (issued (fst (query ex_store '' A.% '' 0 0 10))) = 1" by simp
  from v [of "'' A.% ''"] asc
  have "map pattern_of (issued (fst (query ex_store '' A.% '' 0 0 10)))
      = [ToLower (TrimSpace '' A.% '')]"
    by simp
  then have c: "map pattern_of (issued (fst (query ex_store '' A.% '' 0 0 10))) = [''a.%'']"
    unfolding n .
  from a b asc c0 c show ?thesis by simp
qed

text \<open>
  Claim C3 as stated fails at the ASCII filter \<open>a\<close> between two spaces: its
  normalized length is 1, yet \<open>query\<close> does not reject it and sends the pattern \<open>a\<close> to the
  store.
\<close>

theorem filter_validation_counterexample:
  "length (ToLower (TrimSpace '' a '')) = 1 \<and>
   query ex_store '' a '' 0 0 10 =
     ([StoreQuery (SelectNewest ''a'' 10)], Inr \<lparr>Results = [], Last = NOT 0\<rparr>)"
  by (simp add: query_defs ex_defs norm_defs)

subsection \<open>C4: the page size\<close>

text \<open>
  Claim C4, as amended.  For a filter that passes the length checks, a page size
  of 0 or above 1000 reaches the store as the limit 1000, and a page size from 1
  to 1000 reaches it unchanged; with either, the request is not rejected for its
  page size: the query succeeds unless the store is at fault.
\<close>

theorem page_size_clamp:
  "3 \<le> length qs \<Longrightarrow> length qs \<le> 255 \<Longrightarrow>
   (n = 0 \<or> 1000 < n \<longrightarrow> map limit_of (issued (fst (query d qs f l n))) = [1000]) \<and>
   (1 \<le> n \<and> n \<le> 1000 \<longrightarrow> map limit_of (issued (fst (query d qs f l n))) = [n]) \<and>
   (0 \<le> n \<and> fault d = None \<longrightarrow> (\<exists>resp. snd (query d qs f l n) = Inr resp))"
proof (intro conjI impI)
  assume len: "3 \<le> length qs" "length qs \<le> 255"
  {
    assume "n = 0 \<or> 1000 < n"
    with len show "map limit_of (issued (fst (query d qs f l n))) = [1000]"
      by (simp add: issued_query_valid limit_of_choose_stmt effective_limit_def)
  next
    assume "1 \<le> n \<and> n \<le> 1000"
    with len show "map limit_of (issued (fst (query d qs f l n))) = [n]"
      by (simp add: issued_query_valid limit_of_choose_stmt effective_limit_def)
  next
    assume ok: "0 \<le> n \<and> fault d = None"
    then have "0 \<le> limit_of (choose_stmt (ToLower (TrimSpace qs)) f l (effective_limit n))"
      by (simp add: limit_of_choose_stmt effective_limit_def)
    with ok len show "\<exists>resp. snd (query d qs f l n) = Inr resp"
      by (simp add: query_valid Let_def SelectContext_def run_select_def)
  }
qed

theorem page_size_clamp_witness:
  "map limit_of (issued (fst (query ex_store ''a.%'' 0 0 0))) = [1000] \<and>
   map limit_of (issued (fst (query ex_store ''a.%'' 0 0 5000))) = [1000] \<and>
   map limit_of (issued (fst (query ex_store ''a.%'' 0 0 10))) = [10] \<and>
   (\<exists>resp. snd (query ex_store ''a.%'' 0 0 5000) = Inr resp)"
proof -
  have up: "fault ex_store = None" by (simp add: ex_defs)
  from page_size_clamp [of "''a.%''" 0 ex_store 0 0]
    page_size_clamp [of "''a.%''" 5000 ex_store 0 0]
    page_size_clamp [of "''a.%''" 10 ex_store 0 0] up
  show ?thesis by simp
qed

text \<open>
  Claim C4 as stated fails at the page size -1: it is not 0 and not above 1000, so
  it reaches the store as the limit -1, the store rejects the statement, and the
  request fails.
\<close>

theorem page_size_counterexample:
  "query ex_store ''a.%'' 0 0 (- 1) =
     ([StoreQuery (SelectNewest ''a.%'' (- 1)),
       LogPrintf ''Query error: pq: LIMIT must not be negative''],
      Inl ''Query failed :('')"
  by (simp add: query_defs ex_defs norm_defs)


subsection \<open>C6: a failing store read\<close>

text \<open>
  Claim C6.  A request whose store read \<open>s\<close> fails with the error \<open>e\<close> is answered
  400 with the one fixed message, whatever \<open>e\<close> is, and the error is logged.
\<close>

theorem store_failure_opaque:
  "issued (fst (queryHandler d q limit off last')) = [s] \<Longrightarrow> SelectContext d s = Inl e \<Longrightarrow>
   snd (queryHandler d q limit off last') =
     \<lparr>status = 400, body = PlainText (''Query failed :('' @ [CHR 0x0A])\<rparr> \<and>
   logged (fst (queryHandler d q limit off last')) = [''Query error: '' @ e]"
proof -
  assume iss: "issued (fst (queryHandler d q limit off last')) = [s]"
    and fail: "SelectContext d s = Inl e"
  have fst_eq: "fst (queryHandler d q limit off last') = fst (query d q off last' limit)"
    by (simp add: queryHandler_def split: prod.splits sum.splits)
  have len: "3 \<le> length q \<and> length q \<le> 255"
  proof (rule ccontr)
    assume "\<not> ?thesis"
    then have "fst (query d q off last' limit) = []" by (auto simp: issued_query_invalid)
    with iss fst_eq show False by simp
  qed
  with iss fst_eq
  have s: "s = choose_stmt (ToLower (TrimSpace q)) off last' (effective_limit limit)"
    by (simp add: issued_query_valid)
  from len fail s show ?thesis
    by (simp add: queryHandler_def query_valid Let_def http_Error_def)
qed

theorem store_failure_opaque_witness:
  "snd (queryHandler ex_down ''a.%'' 10 0 0) =
     \<lparr>status = 400, body = PlainText (''Query failed :('' @ [CHR 0x0A])\<rparr> \<and>
   logged (fst (queryHandler ex_down ''a.%'' 10 0 0)) =
     [''Query error: pq: connection refused'']"
proof -
  have i: "issued (fst (queryHandler ex_down ''a.%'' 10 0 0)) = [SelectNewest ''a.%'' 10]"
    by (simp add: queryHandler_def query_defs ex_defs norm_defs)
  have e: "SelectContext ex_down (SelectNewest ''a.%'' 10) = Inl ''pq: connection refused''"
    by (simp add: SelectContext_def ex_defs)
  from store_failure_opaque [OF i e] show ?thesis by simp
qed

subsection \<open>C7: a failing refresh\<close>

text \<open>
  Claim C7, as amended.  The two counters are refreshed by two statements, each on
  its own.  A counter whose statement fails keeps its value, which the stats
  endpoint goes on returning, and the failure is logged; a counter whose statement
  succeeds takes the new count; when both statements fail the whole snapshot is as
  before; and the loop goes on to its next pass whatever happened in the passes
  before.
\<close>

theorem refresh_failure_keeps_count:
  "(count_etlds d1 = Inl e \<longrightarrow>
      etldCount (snd (poll_pass d1 d2 g)) = etldCount g \<and>
      ETLDCount (stats_of (snd (poll_pass d1 d2 g))) = ETLDCount (stats_of g) \<and>
      ''Failed to get etld count: '' @ e \<in> set (fst (poll_pass d1 d2 g))) \<and>
   (count_domains d2 = Inl e' \<longrightarrow>
      domainCount (snd (poll_pass d1 d2 g)) = domainCount g \<and>
      DomainCount (stats_of (snd (poll_pass d1 d2 g))) = DomainCount (stats_of g) \<and>
      ''Failed to get domain count: '' @ e' \<in> set (fst (poll_pass d1 d2 g))) \<and>
   (count_etlds d1 = Inl e \<and> count_domains d2 = Inl e' \<longrightarrow>
      snd (poll_pass d1 d2 g) = g \<and>
      statsHandler (snd (poll_pass d1 d2 g)) = statsHandler g) \<and>
   (count_etlds d1 = Inr v \<longrightarrow> etldCount (snd (poll_pass d1 d2 g)) = v) \<and>
   (count_domains d2 = Inr v' \<longrightarrow> domainCount (snd (poll_pass d1 d2 g)) = v') \<and>
   snd (pollEtldCount (ticks @ [(d1, d2)]) g) =
     snd (poll_pass d1 d2 (snd (pollEtldCount ticks g)))"
  by (auto simp: pollEtldCount_snoc poll_pass_def Get_def log_failure_def stats_of_def
      statsHandler_def split: sum.splits)

theorem refresh_failure_keeps_count_witness:
  "count_etlds ex_down = Inl ''pq: connection refused'' \<and>
   count_domains ex_down = Inl ''pq: connection refused'' \<and>
   snd (poll_pass ex_down ex_down \<lparr>etldCount = 1, domainCount = 1\<rparr>) =
     \<lparr>etldCount = 1, domainCount = 1\<rparr> \<and>
   etldCount (snd (poll_pass ex_down ex_store \<lparr>etldCount = 1, domainCount = 1\<rparr>)) = 1 \<and>
   domainCount (snd (poll_pass ex_store ex_down \<lparr>etldCount = 1, domainCount = 1\<rparr>)) = 1"
proof -
  have a: "count_etlds ex_down = Inl ''pq: connection refused''"
    by (simp add: count_etlds_def ex_defs)
  have b: "count_domains ex_down = Inl ''pq: connection refused''"
    by (simp add: count_domains_def ex_defs)
  note k = refresh_failure_keeps_count [of _ "''pq: connection refused''" _
      "\<lparr>etldCount = 1, domainCount = 1\<rparr>" "''pq: connection refused''" 0 0 "[]"]
  from k [of ex_down ex_down] a b
  have c: "snd (poll_pass ex_down ex_down \<lparr>etldCount = 1, domainCount = 1\<rparr>) =
      \<lparr>etldCount = 1, domainCount = 1\<rparr>"
    by simp
  from k [of ex_down ex_store] a
  have d: "etldCount (snd (poll_pass ex_down ex_store \<lparr>etldCount = 1, domainCount = 1\<rparr>)) = 1"
    by simp
  from k [of ex_store ex_down] b
  have e: "domainCount (snd (poll_pass ex_store ex_down \<lparr>etldCount = 1, domainCount = 1\<rparr>)) = 1"
    by simp
  from a b c d e show ?thesis by simp
qed

text \<open>
  Claim C7 as stated fails when only one statement fails.  With the snapshot
  \<open>(1, 1)\<close> cached and the store grown to three domains, a pass whose first
  statement fails and whose second succeeds leaves \<open>etldCount = 1\<close> beside
  \<open>domainCount = 3\<close>: a refresh query failed, and the snapshot is not the one
  cached before.
\<close>

theorem refresh_failure_counterexample:
  "poll_pass ex_down ex_store \<lparr>etldCount = 1, domainCount = 1\<rparr> =
     ([''Failed to get etld count: pq: connection refused''],
      \<lparr>etldCount = 1, domainCount = 3\<rparr>)"
  by (simp add: poll_pass_def Get_def log_failure_def count_etlds_def count_domains_def
      ex_defs)

subsection \<open>C8: the example\<close>

text \<open>
  Claim C8, as amended.  On a store that holds exactly the three domains of the
  example (whatever their other fields), the filter \<open>a.%\<close> or \<open>%a.%\<close>, with no
  cursor and the page size 10, returns the page \<open>[a.net.au, a.com.au]\<close> with
  \<open>last = 1\<close>.
\<close>

theorem example_page:
  "Domain' r1 = ''a.com.au'' \<and> Id' r1 = 1 \<and> FirstSeen r1 = 100 \<Longrightarrow>
   Domain' r2 = ''b.com.au'' \<and> Id' r2 = 2 \<and> FirstSeen r2 = 200 \<Longrightarrow>
   Domain' r3 = ''a.net.au'' \<and> Id' r3 = 3 \<and> FirstSeen r3 = 200 \<Longrightarrow>
   set (domains d) = {r1, r2, r3} \<Longrightarrow> distinct (map Id' (domains d)) \<Longrightarrow>
   fault d = None \<Longrightarrow> p = ''a.%'' \<or> p = ''%a.%'' \<Longrightarrow>
   query d p 0 0 10 =
     ([StoreQuery (SelectNewest p 10)], Inr \<lparr>Results = [r3, r1], Last = 1\<rparr>)"
proof -
  assume r1: "Domain' r1 = ''a.com.au'' \<and> Id' r1 = 1 \<and> FirstSeen r1 = 100"
    and r2: "Domain' r2 = ''b.com.au'' \<and> Id' r2 = 2 \<and> FirstSeen r2 = 200"
    and r3: "Domain' r3 = ''a.net.au'' \<and> Id' r3 = 3 \<and> FirstSeen r3 = 200"
    and tbl: "set (domains d) = {r1, r2, r3}"
    and dist: "distinct (map Id' (domains d))"
    and up: "fault d = None"
    and p: "p = ''a.%'' \<or> p = ''%a.%''"
  let ?s = "SelectNewest p 10"
  let ?m = "filter (where_clause ?s) (domains d)"
  have m1: "where_clause ?s r1" using r1 p by auto
  have m2: "\<not> where_clause ?s r2" using r2 p by auto
  have m3: "where_clause ?s r3" using r3 p by auto
  have set_m: "set (order_by ?m) = set [r3, r1]"
    using tbl m1 m2 m3 by (auto simp: set_order_by)
  have "distinct (map Id' ?m)" using dist by (simp add: distinct_map_filter)
  then have "sorted_wrt sorts_before (order_by ?m)"
    by (intro strict_of_distinct sorted_order_by) (simp add: distinct_order_by)
  moreover have "sorted_wrt sorts_before [r3, r1]"
    using r1 r3 by (simp add: sorts_before_def)
  ultimately have "order_by ?m = [r3, r1]"
    using set_m by (rule strict_sorted_unique)
  then have sel: "SelectContext d ?s = Inr [r3, r1]"
    using up by (simp add: SelectContext_def run_select_def)
  have norm: "ToLower (TrimSpace p) = p"
    using p by (auto simp: norm_defs)
  have low: "lowestId [r3, r1] = 1" using r1 r3 by (simp add: lowestId_def)
  have len: "length p \<le> 255 \<and> 3 \<le> length p" using p by auto
  show ?thesis
    using sel norm low len
    by (simp add: query_def effective_limit_def choose_stmt_def)
qed

theorem example_page_witness:
  "query ex_store ''a.%'' 0 0 10 =
     ([StoreQuery (SelectNewest ''a.%'' 10)],
      Inr \<lparr>Results = [ex_a_net, ex_a_com], Last = 1\<rparr>)"
  using example_page [of ex_a_com ex_b_com ex_a_net ex_store "''a.%''"]
  by (simp add: ex_defs)

text \<open>
  Claim C8 as stated fails: the filter \<open>a.\<close> has two characters, and \<open>query\<close>
  rejects it before it reads the store.
\<close>

theorem example_counterexample:
  "query ex_store ''a.'' 0 0 10 = ([], Inl ''Query must be at least 3 characters'')"
  by (simp add: query_def)

subsection \<open>C9: the snapshot under interleaving\<close>

text \<open>
  Claim C9, as amended.  The snapshot is two variables, each assigned by its own
  statement of the one background writer, \<open>etldCount\<close> first.  A stats request is
  answered, for each count, the result of the latest statement for that count
  that succeeded before the request, and 0 when there was none; every request of
  a schedule is answered.  So a request served between the two assignments of a
  refresh is answered the new \<open>etldCount\<close> beside the \<open>domainCount\<close> from before, and
  a request served after the second assignment is answered the new \<open>domainCount\<close>
  beside the \<open>etldCount\<close> that stands.
\<close>

theorem snapshot_fieldwise:
  "served (run (pre @ Serve # post) start) ! requests pre =
     \<lparr>DomainCount = latest 0 (domain_reads AtGetEtld pre),
        ETLDCount = latest 0 (etld_reads AtGetEtld pre)\<rparr> \<and>
   length (served (run acts start)) = requests acts \<and>
   (at s = AtGetEtld \<and> count_etlds d = Inr v \<longrightarrow>
      served (step (step s (Poll d)) Serve) =
        served s @ [\<lparr>DomainCount = domainCount (vars s), ETLDCount = v\<rparr>]) \<and>
   (at s = AtGetDomain \<and> count_domains d = Inr v \<longrightarrow>
      served (step (step s (Poll d)) Serve) =
        served s @ [\<lparr>DomainCount = v, ETLDCount = etldCount (vars s)\<rparr>])"
proof (intro conjI impI)
  have n: "length (served (run pre start)) = requests pre"
    using served_run_prefix [of start pre] by (simp add: start_def)
  have "served (run (pre @ Serve # post) start) ! requests pre = stats_of (vars (run pre start))"
    using served_at_request [of pre post start] unfolding n .
  also have "\<dots> = \<lparr>DomainCount = latest 0 (domain_reads AtGetEtld pre),
        ETLDCount = latest 0 (etld_reads AtGetEtld pre)\<rparr>"
    by (simp add: stats_of_def etldCount_run domainCount_run start_def)
  finally show "served (run (pre @ Serve # post) start) ! requests pre =
     \<lparr>DomainCount = latest 0 (domain_reads AtGetEtld pre),
        ETLDCount = latest 0 (etld_reads AtGetEtld pre)\<rparr>" .
next
  show "length (served (run acts start)) = requests acts"
    using served_run_prefix [of start acts] by (simp add: start_def)
next
  assume "at s = AtGetEtld \<and> count_etlds d = Inr v"
  then show "served (step (step s (Poll d)) Serve) =
        served s @ [\<lparr>DomainCount = domainCount (vars s), ETLDCount = v\<rparr>]"
    by (simp add: Get_def stats_of_def)
next
  assume "at s = AtGetDomain \<and> count_domains d = Inr v"
  then show "served (step (step s (Poll d)) Serve) =
        served s @ [\<lparr>DomainCount = v, ETLDCount = etldCount (vars s)\<rparr>]"
    by (simp add: Get_def stats_of_def)
qed

theorem snapshot_fieldwise_witness:
  "requests [Poll ex_first, Poll ex_first, Poll ex_first, Poll ex_store] = 0 \<and>
   latest 0 (etld_reads AtGetEtld [Poll ex_first, Poll ex_first, Poll ex_first, Poll ex_store])
     = 2 \<and>
   latest 0 (domain_reads AtGetEtld [Poll ex_first, Poll ex_first, Poll ex_first, Poll ex_store])
     = 1 \<and>
   served (run ([Poll ex_first, Poll ex_first, Poll ex_first, Poll ex_store]
                  @ Serve # [Poll ex_store]) start) ! 0 =
     \<lparr>DomainCount = 1, ETLDCount = 2\<rparr> \<and>
   at (run [Poll ex_first, Poll ex_first, Poll ex_first] start) = AtGetEtld \<and>
   count_etlds ex_store = Inr 2 \<and>
   served (step (step (run [Poll ex_first, Poll ex_first, Poll ex_first] start)
             (Poll ex_store)) Serve) =
     [\<lparr>DomainCount = 1, ETLDCount = 2\<rparr>] \<and>
   at (run [Poll ex_first] start) = AtGetDomain \<and>
   count_domains ex_first = Inr 1 \<and>
   served (step (step (run [Poll ex_first] start) (Poll ex_first)) Serve) =
     [\<lparr>DomainCount = 1, ETLDCount = 1\<rparr>]"
proof -
  let ?pre = "[Poll ex_first, Poll ex_first, Poll ex_first, Poll ex_store]"
  let ?s = "run [Poll ex_first, Poll ex_first, Poll ex_first] start"
  let ?t = "run [Poll ex_first] start"
  have e: "count_etlds ex_store = Inr 2" by (simp add: count_etlds_def ex_defs)
  have f: "count_domains ex_first = Inr 1" by (simp add: count_domains_def ex_defs)
  have g: "count_etlds ex_first = Inr 1" by (simp add: count_etlds_def ex_defs)
  have n: "requests ?pre = 0" by simp
  have le: "latest 0 (etld_reads AtGetEtld ?pre) = 2" by (simp add: e g)
  have ld: "latest 0 (domain_reads AtGetEtld ?pre) = 1" by (simp add: f)
  have as: "at ?s = AtGetEtld" by (simp add: run_def start_def)
  have vs: "vars ?s = \<lparr>etldCount = 1, domainCount = 1\<rparr>" "served ?s = []"
    by (simp_all add: run_def start_def Get_def f g)
  have at: "at ?t = AtGetDomain" by (simp add: run_def start_def)
  have vt: "vars ?t = \<lparr>etldCount = 1, domainCount = 0\<rparr>" "served ?t = []"
    by (simp_all add: run_def start_def Get_def g)
  note h1 = snapshot_fieldwise [of ?pre "[Poll ex_store]" "[]" ?s ex_store 2]
  note h2 = snapshot_fieldwise [of "[]" "[]" "[]" ?t ex_first 1]
  from h1 have a: "served (run (?pre @ Serve # [Poll ex_store]) start) ! requests ?pre =
      \<lparr>DomainCount = latest 0 (domain_reads AtGetEtld ?pre),
         ETLDCount = latest 0 (etld_reads AtGetEtld ?pre)\<rparr>"
    by blast
  from h1 as e have "served (step (step ?s (Poll ex_store)) Serve) =
      served ?s @ [\<lparr>DomainCount = domainCount (vars ?s), ETLDCount = 2\<rparr>]"
    by blast
  then have b: "served (step (step ?s (Poll ex_store)) Serve) =
      [\<lparr>DomainCount = 1, ETLDCount = 2\<rparr>]"
    unfolding vs by simp
  from h2 at f have "served (step (step ?t (Poll ex_first)) Serve) =
      served ?t @ [\<lparr>DomainCount = 1, ETLDCount = etldCount (vars ?t)\<rparr>]"
    by blast
  then have c: "served (step (step ?t (Poll ex_first)) Serve) =
      [\<lparr>DomainCount = 1, ETLDCount = 1\<rparr>]"
    unfolding vt by simp
  from a have a': "served (run (?pre @ Serve # [Poll ex_store]) start) ! 0 =
      \<lparr>DomainCount = 1, ETLDCount = 2\<rparr>"
    unfolding n le ld .
  from n le ld a' as e b at f c show ?thesis by blast
qed

text \<open>
  Claim C9 as stated fails.  The first refresh, on a store of one domain, leaves
  the snapshot \<open>(1, 1)\<close>; the second, on the store of three domains and two eTLDs,
  ends with \<open>(2, 3)\<close>; a stats request served between the two statements of the
  second refresh is answered \<open>etlds = 2\<close> beside \<open>domains = 1\<close>.
\<close>

theorem snapshot_counterexample:
  "vars (run [Poll ex_first, Poll ex_first, Poll ex_first] start) =
     \<lparr>etldCount = 1, domainCount = 1\<rparr> \<and>
   served (run [Poll ex_first, Poll ex_first, Poll ex_first,
                Poll ex_store, Serve, Poll ex_store] start) =
     [\<lparr>DomainCount = 1, ETLDCount = 2\<rparr>] \<and>
   vars (run [Poll ex_first, Poll ex_first, Poll ex_first,
              Poll ex_store, Serve, Poll ex_store] start) =
     \<lparr>etldCount = 2, domainCount = 3\<rparr>"
  by (simp add: run_def start_def Get_def count_etlds_def count_domains_def stats_of_def
      ex_defs)

subsection \<open>C10: the empty page\<close>

text \<open>
  Claim C10.  When the filter passes the length checks and the store read returns
  no row, \<open>query\<close> succeeds with the empty page, and \<open>last\<close> is what the loop
  leaves of its start value when there is no row: the all-ones word, \<open>2^64 - 1\<close>.
\<close>

theorem empty_page_last:
  "3 \<le> length qs \<Longrightarrow> length qs \<le> 255 \<Longrightarrow>
   issued (fst (query d qs f l n)) = [s] \<Longrightarrow> SelectContext d s = Inr [] \<Longrightarrow>
   snd (query d qs f l n) = Inr \<lparr>Results = [], Last = lowestId []\<rparr> \<and>
   lowestId [] = NOT 0 \<and> unat (lowestId []) = 2 ^ 64 - 1"
  by (auto simp: query_valid Let_def lowestId_def unsigned_minus_1_eq_mask
      mask_eq_exp_minus_1 split: sum.splits)

theorem empty_page_last_witness:
  "snd (query ex_store ''zzz'' 0 0 10) = Inr \<lparr>Results = [], Last = NOT 0\<rparr> \<and>
   unat (lowestId []) = 2 ^ 64 - 1"
proof -
  have i: "issued (fst (query ex_store ''zzz'' 0 0 10)) = [SelectNewest ''zzz'' 10]"
    by (simp add: query_defs ex_defs norm_defs)
  have e: "SelectContext ex_store (SelectNewest ''zzz'' 10) = Inr []"
    by (simp add: query_defs ex_defs)
  from empty_page_last [OF _ _ i e] show ?thesis
    by (simp add: unsigned_minus_1_eq_mask mask_eq_exp_minus_1)
qed

end
